theory Spec2Isabelle
  imports Complex_Main
begin

section \<open>The Snake activation: \<open>snake/activations.py\<close>\<close>

text \<open>
  The module defines one class, \<open>Snake\<close>, with a constructor and a \<open>forward\<close>
  method.  Both are written against the tensor library; the parts of the library
  they call are modelled below, each next to the call it stands for.
\<close>

subsection \<open>Tensor elements\<close>

text \<open>
  A tensor element is a single-precision floating-point value.  The special values
  of the format (the two infinities and not-a-number) are explicit; a finite value
  is the real number it denotes.  The sign of zero is not represented.
\<close>

datatype fval = Fin real | PInf | NInf | NaN

fun fneg :: "fval \<Rightarrow> fval" where
  "fneg (Fin a) = Fin (- a)"
| "fneg PInf = NInf"
| "fneg NInf = PInf"
| "fneg NaN = NaN"

text \<open>
  Rounding to single precision, to nearest with ties to even.  \<open>rne\<close> rounds a
  real to an integer.  \<open>expo t\<close> is the exponent of the unit in the last place
  of the binade of \<open>t \<ge> 0\<close>: 24 significant bits from \<open>2 powi (- 126)\<close> upwards,
  the fixed exponent \<open>- 149\<close> of the subnormal numbers below.  \<open>rmag\<close> rounds a magnitude;
  a magnitude of at least \<open>overflow32\<close>, half a unit above the largest finite
  value, rounds to infinity.
\<close>

definition rne :: "real \<Rightarrow> int" where
  "rne q = (let f = \<lfloor>q\<rfloor>; d = q - of_int f
            in if d < 1 / 2 then f else if 1 / 2 < d then f + 1
               else if even f then f else f + 1)"

definition expo :: "real \<Rightarrow> int" where
  "expo t = (if t < 2 powi (- 126) then - 149 else \<lfloor>log 2 t\<rfloor> - 23)"

definition rmag :: "real \<Rightarrow> real" where
  "rmag t = of_int (rne (t / 2 powi expo t)) * 2 powi expo t"

definition overflow32 :: real where
  "overflow32 = 2 ^ 128 - 2 ^ 103"

definition round32 :: "real \<Rightarrow> fval" where
  "round32 x =
     (if overflow32 \<le> \<bar>x\<bar> then (if 0 < x then PInf else NInf)
      else if x < 0 then Fin (- rmag (- x)) else Fin (rmag x))"

text \<open>The conversion of a Python float to an element.\<close>

fun to_float32 :: "fval \<Rightarrow> fval" where
  "to_float32 (Fin a) = round32 a"
| "to_float32 v = v"

text \<open>An infinity of the sign of \<open>PInf\<close> scaled by a finite factor.\<close>

definition inf_times :: "fval \<Rightarrow> real \<Rightarrow> fval" where
  "inf_times i b = (if b = 0 then NaN else if 0 < b then i else fneg i)"

text \<open>
  The arithmetic of the elements: the exact result of finite operands is rounded
  to single precision.
\<close>

fun fadd :: "fval \<Rightarrow> fval \<Rightarrow> fval" where
  "fadd (Fin a) (Fin b) = round32 (a + b)"
| "fadd NaN _ = NaN"
| "fadd _ NaN = NaN"
| "fadd PInf NInf = NaN"
| "fadd NInf PInf = NaN"
| "fadd PInf _ = PInf"
| "fadd NInf _ = NInf"
| "fadd _ PInf = PInf"
| "fadd _ NInf = NInf"

fun fmul :: "fval \<Rightarrow> fval \<Rightarrow> fval" where
  "fmul (Fin a) (Fin b) = round32 (a * b)"
| "fmul NaN _ = NaN"
| "fmul _ NaN = NaN"
| "fmul PInf (Fin b) = inf_times PInf b"
| "fmul NInf (Fin b) = inf_times NInf b"
| "fmul (Fin a) PInf = inf_times PInf a"
| "fmul (Fin a) NInf = inf_times NInf a"
| "fmul PInf PInf = PInf"
| "fmul NInf NInf = PInf"
| "fmul PInf NInf = NInf"
| "fmul NInf PInf = NInf"

text \<open>
  Division of tensors does not raise on a zero divisor: a nonzero finite value
  over zero is an infinity, zero over zero is not-a-number.
\<close>

fun fdiv :: "fval \<Rightarrow> fval \<Rightarrow> fval" where
  "fdiv (Fin a) (Fin b) =
     (if b = 0 then (if a = 0 then NaN else if 0 < a then PInf else NInf)
      else round32 (a / b))"
| "fdiv NaN _ = NaN"
| "fdiv _ NaN = NaN"
| "fdiv (Fin a) _ = Fin 0"
| "fdiv PInf (Fin b) = (if 0 \<le> b then PInf else NInf)"
| "fdiv NInf (Fin b) = (if 0 \<le> b then NInf else PInf)"
| "fdiv _ _ = NaN"

text \<open>
  The sine of the library is taken to return the single-precision value nearest
  to the exact sine.  The theorems below use of it only that the sine of zero is
  zero, that the sine of a finite value lies between \<open>-1\<close> and \<open>1\<close>, and that the
  sine of an infinity or of not-a-number is not-a-number.
\<close>

fun fsin :: "fval \<Rightarrow> fval" where
  "fsin (Fin a) = round32 (sin a)"
| "fsin _ = NaN"

fun fpow :: "fval \<Rightarrow> nat \<Rightarrow> fval" where
  "fpow (Fin a) k = round32 (a ^ k)"
| "fpow NaN k = (if k = 0 then Fin 1 else NaN)"
| "fpow PInf k = (if k = 0 then Fin 1 else PInf)"
| "fpow NInf k = (if k = 0 then Fin 1 else if even k then PInf else NInf)"

text \<open>The order of the elements; not-a-number compares with nothing.\<close>

fun fle :: "fval \<Rightarrow> fval \<Rightarrow> bool" where
  "fle NaN _ = False"
| "fle _ NaN = False"
| "fle (Fin a) (Fin b) = (a \<le> b)"
| "fle NInf _ = True"
| "fle _ PInf = True"
| "fle _ _ = False"

subsection \<open>Tensors and broadcasting\<close>

text \<open>
  A tensor is its shape and its elements in row-major order.  It is well formed
  when the number of elements is the product of the shape.
\<close>

record tensor =
  shape :: "nat list"
  data :: "fval list"

definition wf_tensor :: "tensor \<Rightarrow> bool" where
  "wf_tensor t \<longleftrightarrow> length (data t) = prod_list (shape t)"

datatype error = TypeError | RuntimeError

text \<open>
  The broadcast of two shapes, dimension by dimension from the trailing one: two
  sizes are compatible when they are equal or one of them is 1; a missing leading
  dimension counts as 1.  The lists are the reversed shapes.
\<close>

fun bshape_rev :: "nat list \<Rightarrow> nat list \<Rightarrow> nat list option" where
  "bshape_rev [] ys = Some ys"
| "bshape_rev xs [] = Some xs"
| "bshape_rev (x # xs) (y # ys) =
     (if x = y \<or> y = 1 then map_option ((#) x) (bshape_rev xs ys)
      else if x = 1 then map_option ((#) y) (bshape_rev xs ys)
      else None)"

definition broadcast_shapes :: "nat list \<Rightarrow> nat list \<Rightarrow> nat list option" where
  "broadcast_shapes s t = map_option rev (bshape_rev (rev s) (rev t))"

text \<open>The \<open>k\<close> consecutive blocks of \<open>n\<close> elements that a list starts with.\<close>

definition chunks :: "nat \<Rightarrow> nat \<Rightarrow> 'a list \<Rightarrow> 'a list list" where
  "chunks n k xs = map (\<lambda>i. take n (drop (i * n) xs)) [0..<k]"

text \<open>
  The elements of a tensor of shape \<open>s\<close> expanded to shape \<open>t\<close> of the same rank:
  a dimension of equal size is kept, a dimension of size 1 is repeated.
\<close>

fun expand :: "nat list \<Rightarrow> nat list \<Rightarrow> 'a list \<Rightarrow> 'a list" where
  "expand [] [] xs = xs"
| "expand (d # ds) (e # es) xs =
     (if d = e then concat (map (expand ds es) (chunks (prod_list ds) d xs))
      else concat (replicate e (expand ds es xs)))"
| "expand _ _ xs = []"

definition pad_shape :: "nat \<Rightarrow> nat list \<Rightarrow> nat list" where
  "pad_shape r s = replicate (r - length s) 1 @ s"

definition expand_to :: "nat list \<Rightarrow> tensor \<Rightarrow> fval list" where
  "expand_to t x = expand (pad_shape (length t) (shape x)) t (data x)"

text \<open>An elementwise binary operation of the library, with broadcasting.\<close>

definition bop :: "(fval \<Rightarrow> fval \<Rightarrow> fval) \<Rightarrow> tensor \<Rightarrow> tensor \<Rightarrow> error + tensor" where
  "bop f x y =
     (case broadcast_shapes (shape x) (shape y) of
        None \<Rightarrow> Inl RuntimeError
      | Some s \<Rightarrow> Inr \<lparr>shape = s, data = map2 f (expand_to s x) (expand_to s y)\<rparr>)"

text \<open>An elementwise unary operation, and an operation with a Python scalar.\<close>

definition umap :: "(fval \<Rightarrow> fval) \<Rightarrow> tensor \<Rightarrow> tensor" where
  "umap f x = \<lparr>shape = shape x, data = map f (data x)\<rparr>"

subsection \<open>The calls of the constructor\<close>

text \<open>
  \<open>in_features\<close> is not typed in the source.  The docstring's example passes an
  integer; the library's shape arguments also accept a tuple of integers.
\<close>

datatype pyarg = PyInt int | PyTuple "int list"

text \<open>
  \<open>torch.ones(in_features)\<close>: an integer is a one-dimensional shape, a tuple is the
  shape itself; a negative size, and a size that does not fit a signed 64-bit
  integer, is refused.  The elements are single-precision ones.  Running out of
  memory is not represented.
\<close>

definition torch_ones :: "pyarg \<Rightarrow> error + tensor" where
  "torch_ones a =
     (let s = (case a of PyInt n \<Rightarrow> [n] | PyTuple ns \<Rightarrow> ns)
      in if list_ex (\<lambda>n. n < 0 \<or> 2 ^ 63 \<le> n) s then Inl RuntimeError
         else Inr \<lparr>shape = map nat s, data = replicate (prod_list (map nat s)) (Fin 1)\<rparr>)"

text \<open>
  \<open>Exponential(torch.tensor([0.1])).sample(in_features)\<close>: the argument is a sample
  shape, converted with \<open>torch.Size\<close>, which takes an iterable of integers and
  raises \<open>TypeError\<close> for an integer.  The result has the sample shape followed by
  the shape \<open>[1]\<close> of the rate tensor; each element is a standard exponential
  variate divided by the rate.  The variates are the parameter \<open>draws\<close>.
\<close>

definition exponential_sample :: "(nat \<Rightarrow> real) \<Rightarrow> pyarg \<Rightarrow> error + tensor" where
  "exponential_sample draws a =
     (case a of
        PyInt n \<Rightarrow> Inl TypeError
      | PyTuple ns \<Rightarrow>
          if list_ex (\<lambda>n. n < 0 \<or> 2 ^ 63 \<le> n) ns then Inl RuntimeError
          else Inr \<lparr>shape = map nat ns @ [1],
                    data = map (\<lambda>i. fdiv (Fin (draws i)) (round32 (1 / 10)))
                             [0..<prod_list (map nat ns)]\<rparr>)"

text \<open>
  A \<open>Parameter\<close> is a tensor with the flag \<open>requires_grad\<close>, true when the
  parameter is created, and the attributes that Python code has set on the object.
  Assigning to the attribute \<open>requires_grad\<close> sets the flag; assigning to any other
  name stores a new attribute on the object.
\<close>

record parameter =
  pdata :: tensor
  requires_grad :: bool
  attrs :: "string \<rightharpoonup> bool"

definition Parameter :: "tensor \<Rightarrow> parameter" where
  "Parameter t = \<lparr>pdata = t, requires_grad = True, attrs = Map.empty\<rparr>"

definition setattr :: "parameter \<Rightarrow> string \<Rightarrow> bool \<Rightarrow> parameter" where
  "setattr p name v =
     (if name = ''requires_grad'' then p\<lparr>requires_grad := v\<rparr>
      else p\<lparr>attrs := (attrs p)(name \<mapsto> v)\<rparr>)"

subsection \<open>The class \<open>Snake\<close>\<close>

record snake =
  in_features :: pyarg
  alpha :: parameter

text \<open>
  \<open>__init__(self, in_features, alpha = None, alpha_trainable = True)\<close>.  An
  exception of a library call leaves the constructor.  \<open>alpha\<close> is a Python float;
  the product with the single-precision ones converts it to single precision.
\<close>

definition Snake_init :: "(nat \<Rightarrow> real) \<Rightarrow> pyarg \<Rightarrow> fval option \<Rightarrow> bool \<Rightarrow> error + snake" where
  "Snake_init draws in_feat al alpha_trainable =
     (case (case al of
              Some c \<Rightarrow>
                (case torch_ones in_feat of
                   Inl e \<Rightarrow> Inl e
                 | Inr t \<Rightarrow> Inr (umap (\<lambda>v. fmul v (to_float32 c)) t))
            | None \<Rightarrow> exponential_sample draws in_feat) of
        Inl e \<Rightarrow> Inl e
      | Inr t \<Rightarrow>
          Inr \<lparr>in_features = in_feat,
               alpha = setattr (Parameter t) ''requiresGrad'' alpha_trainable\<rparr>)"

text \<open>
  \<open>forward(self, x)\<close> returns
  \<open>x + (1.0/self.alpha) * pow(sin(x * self.alpha), 2)\<close>.  The object is threaded
  through the call: the result is the value returned, or the exception raised, and
  the object afterwards.
\<close>

definition forward :: "snake \<Rightarrow> tensor \<Rightarrow> (error + tensor) \<times> snake" where
  "forward self x =
     (let a = pdata (alpha self) in
      (case bop fmul x a of
         Inl e \<Rightarrow> Inl e
       | Inr t1 \<Rightarrow>
           (case bop fmul (umap (fdiv (Fin 1)) a) (umap (\<lambda>v. fpow v 2) (umap fsin t1)) of
              Inl e \<Rightarrow> Inl e
            | Inr t5 \<Rightarrow> bop fadd x t5),
       self))"

text \<open>The value computed for one element \<open>v\<close> of the input and one element \<open>w\<close> of the parameter.\<close>

definition snake_elem :: "fval \<Rightarrow> fval \<Rightarrow> fval" where
  "snake_elem v w = fadd v (fmul (fdiv (Fin 1) w) (fpow (fsin (fmul v w)) 2))"

section \<open>Rounding to single precision\<close>

lemma rne_of_int: "rne (of_int k) = k"
  by (simp add: rne_def)

lemma rne_floor_le: "\<lfloor>q\<rfloor> \<le> rne q"
  by (simp add: rne_def Let_def)

lemma rne_le_floor_Suc: "rne q \<le> \<lfloor>q\<rfloor> + 1"
  by (simp add: rne_def Let_def)

lemma rne_mono: "p \<le> q \<Longrightarrow> rne p \<le> rne q"
proof -
  assume pq: "p \<le> q"
  then have fl: "\<lfloor>p\<rfloor> \<le> \<lfloor>q\<rfloor>" by (rule floor_mono)
  show ?thesis
  proof (cases "\<lfloor>p\<rfloor> = \<lfloor>q\<rfloor>")
    case True
    with pq show ?thesis by (auto simp add: rne_def Let_def)
  next
    case False
    with fl have "\<lfloor>p\<rfloor> + 1 \<le> \<lfloor>q\<rfloor>" by simp
    with rne_le_floor_Suc [of p] rne_floor_le [of q] show ?thesis by linarith
  qed
qed

lemma rne_ge: "of_int k \<le> q \<Longrightarrow> k \<le> rne q"
  using rne_mono [of "of_int k" q] by (simp add: rne_of_int)

lemma rne_le: "q \<le> of_int k \<Longrightarrow> rne q \<le> k"
  using rne_mono [of q "of_int k"] by (simp add: rne_of_int)

lemma rne_le_half: "real_of_int (rne q) \<le> q + 1 / 2"
  using of_int_floor_le [of q]
  by (auto simp add: rne_def Let_def simp del: of_int_floor_le)

lemma expo_bounds:
  assumes "2 powi (- 126) \<le> t"
  shows "2 powi (expo t + 23) \<le> t" and "t < 2 powi (expo t + 24)"
proof -
  have "(0::real) < 2 powi (- 126)" by simp
  with assms have t: "0 < t" by linarith
  define k where "k = \<lfloor>log 2 t\<rfloor>"
  from t have "2 powr real_of_int k \<le> t \<and> t < 2 powr (real_of_int k + 1)"
    using floor_log_eq_powr_iff [of t 2 k] by (simp add: k_def)
  moreover have "real_of_int k + 1 = real_of_int (k + 1)" by simp
  ultimately have "2 powr real_of_int k \<le> t \<and> t < 2 powr real_of_int (k + 1)"
    by (simp only:)
  moreover have "(2::real) powr real_of_int k = 2 powi k"
    by (rule powr_real_of_int') simp_all
  moreover have "(2::real) powr real_of_int (k + 1) = 2 powi (k + 1)"
    by (rule powr_real_of_int') simp_all
  ultimately have "2 powi \<lfloor>log 2 t\<rfloor> \<le> t \<and> t < 2 powi (\<lfloor>log 2 t\<rfloor> + 1)"
    unfolding k_def by (simp only:)
  moreover from assms have "expo t = \<lfloor>log 2 t\<rfloor> - 23" by (simp add: expo_def)
  ultimately show "2 powi (expo t + 23) \<le> t" and "t < 2 powi (expo t + 24)"
    by (simp_all add: add.commute)
qed

lemma powi2_less_iff: "(2::real) powi a < 2 powi b \<longleftrightarrow> a < b"
proof
  assume "(2::real) powi a < 2 powi b"
  show "a < b"
  proof (rule ccontr)
    assume "\<not> a < b"
    then have "b \<le> a" by simp
    then have "(2::real) powi b \<le> 2 powi a" by (rule power_int_increasing) simp
    with \<open>(2::real) powi a < 2 powi b\<close> show False by simp
  qed
next
  assume "a < b"
  then show "(2::real) powi a < 2 powi b" by (rule power_int_strict_increasing) simp
qed

lemma powi2_le_iff: "(2::real) powi a \<le> 2 powi b \<longleftrightarrow> a \<le> b"
  using powi2_less_iff [of b a] by (auto simp add: not_less [symmetric])

lemma expo_ge: "- 149 \<le> expo t"
proof (cases "t < 2 powi (- 126)")
  case True
  then show ?thesis by (simp add: expo_def)
next
  case False
  then have "2 powi (- 126) \<le> t" by simp
  from this expo_bounds(2) [OF this] have "(2::real) powi (- 126) < 2 powi (expo t + 24)"
    by (rule le_less_trans)
  then have "- 126 < expo t + 24" by (simp only: powi2_less_iff)
  then show ?thesis by simp
qed

lemma expo_le:
  assumes "- 149 \<le> e" "t < 2 powi (e + 24)"
  shows "expo t \<le> e"
proof (cases "t < 2 powi (- 126)")
  case True
  with assms show ?thesis by (simp add: expo_def)
next
  case False
  then have "2 powi (- 126) \<le> t" by simp
  from expo_bounds(1) [OF this] assms(2) have "(2::real) powi (expo t + 23) < 2 powi (e + 24)"
    by (rule le_less_trans)
  then have "expo t + 23 < e + 24" by (simp only: powi2_less_iff)
  then show ?thesis by simp
qed

lemma expo_mono:
  assumes "s \<le> t"
  shows "expo s \<le> expo t"
proof (cases "t < 2 powi (- 126)")
  case True
  with assms show ?thesis by (simp add: expo_def)
next
  case False
  then have "2 powi (- 126) \<le> t" by simp
  from assms expo_bounds(2) [OF this] have "s < 2 powi (expo t + 24)" by (rule le_less_trans)
  with expo_ge show ?thesis by (rule expo_le)
qed

lemma powi2_pos: "(0::real) < 2 powi e"
  by simp

lemma powi2_add: "(2::real) powi (a + b) = 2 powi a * 2 powi b"
  by (rule power_int_add) simp

lemma rne_scaled_le:
  assumes "(t::real) \<le> of_int k * 2 powi e"
  shows "real_of_int (rne (t / 2 powi e)) * 2 powi e \<le> of_int k * 2 powi e"
proof -
  from assms have "t / 2 powi e \<le> of_int k" by (simp add: pos_divide_le_eq)
  then have "rne (t / 2 powi e) \<le> k" by (rule rne_le)
  then have "real_of_int (rne (t / 2 powi e)) \<le> real_of_int k" by simp
  then show ?thesis by (rule mult_right_mono) simp
qed

lemma rne_scaled_ge:
  assumes "of_int k * 2 powi e \<le> (t::real)"
  shows "of_int k * 2 powi e \<le> real_of_int (rne (t / 2 powi e)) * 2 powi e"
proof -
  from assms have "of_int k \<le> t / 2 powi e" by (simp add: pos_le_divide_eq)
  then have "k \<le> rne (t / 2 powi e)" by (rule rne_ge)
  then have "real_of_int k \<le> real_of_int (rne (t / 2 powi e))" by simp
  then show ?thesis by (rule mult_right_mono) simp
qed

lemma below_next_binade: "t < 2 powi (expo t + 24)"
proof (cases "t < 2 powi (- 126)")
  case True
  have "(2::real) powi (- 126) \<le> 2 powi (- 125)" by (simp add: powi2_le_iff)
  with True show ?thesis by (simp add: expo_def)
next
  case False
  then show ?thesis by (intro expo_bounds(2)) simp
qed

lemma rmag_upper: "rmag t \<le> 2 powi (expo t + 24)"
proof -
  have "t \<le> of_int (2 ^ 24) * 2 powi expo t"
    using below_next_binade [of t] by (simp add: powi2_add mult.commute)
  then have "rmag t \<le> of_int (2 ^ 24) * 2 powi expo t"
    unfolding rmag_def by (rule rne_scaled_le)
  then show ?thesis by (simp add: powi2_add mult.commute)
qed

lemma rmag_lower:
  assumes "2 powi (- 126) \<le> t"
  shows "2 powi (expo t + 23) \<le> rmag t"
proof -
  have "of_int (2 ^ 23) * 2 powi expo t \<le> t"
    using expo_bounds(1) [OF assms] by (simp add: powi2_add mult.commute)
  then have "of_int (2 ^ 23) * 2 powi expo t \<le> rmag t"
    unfolding rmag_def by (rule rne_scaled_ge)
  then show ?thesis by (simp add: powi2_add mult.commute)
qed

lemma rmag_mono:
  assumes "s \<le> t"
  shows "rmag s \<le> rmag t"
proof (cases "expo s = expo t")
  case True
  from assms have "s / 2 powi expo t \<le> t / 2 powi expo t" by (simp add: divide_right_mono)
  then have "rne (s / 2 powi expo t) \<le> rne (t / 2 powi expo t)" by (rule rne_mono)
  then have "real_of_int (rne (s / 2 powi expo t)) \<le> real_of_int (rne (t / 2 powi expo t))"
    by simp
  then have "real_of_int (rne (s / 2 powi expo t)) * 2 powi expo t
      \<le> real_of_int (rne (t / 2 powi expo t)) * 2 powi expo t"
    by (rule mult_right_mono) simp
  with True show ?thesis by (simp add: rmag_def)
next
  case False
  with expo_mono [OF assms] have lt: "expo s < expo t" by simp
  have big: "2 powi (- 126) \<le> t"
  proof (rule ccontr)
    assume "\<not> 2 powi (- 126) \<le> t"
    then have "expo t = - 149" by (simp add: expo_def)
    with lt expo_ge [of s] show False by simp
  qed
  have "rmag s \<le> 2 powi (expo s + 24)" by (rule rmag_upper)
  also from lt have "(2::real) powi (expo s + 24) \<le> 2 powi (expo t + 23)"
    by (simp add: powi2_le_iff)
  also from big have "2 powi (expo t + 23) \<le> rmag t" by (rule rmag_lower)
  finally show ?thesis .
qed

lemma rmag_zero: "rmag 0 = 0"
  by (simp add: rmag_def rne_def)

lemma rmag_nonneg: "0 \<le> t \<Longrightarrow> 0 \<le> rmag t"
  using rmag_mono [of 0 t] by (simp add: rmag_zero)

lemma rmag_repr_lt:
  assumes m: "0 \<le> m" "m < 2 ^ 24" and e: "- 149 \<le> e"
  shows "rmag (of_int m * 2 powi e) = of_int m * 2 powi e"
proof -
  define y :: real where "y = of_int m * 2 powi e"
  from m(2) have "real_of_int m < 2 ^ 24" by (metis of_int_less_numeral_power_cancel_iff)
  then have "y < 2 ^ 24 * 2 powi e" unfolding y_def by (rule mult_strict_right_mono) simp
  then have "y < 2 powi (e + 24)" by (simp add: powi2_add mult.commute)
  with e have le: "expo y \<le> e" by (rule expo_le)
  define d where "d = nat (e - expo y)"
  from le have "e = expo y + int d" by (simp add: d_def)
  define P :: real where "P = 2 powi expo y"
  have P: "0 < P" by (simp add: P_def)
  from \<open>e = expo y + int d\<close> have "(2::real) powi e = P * 2 ^ d"
    by (simp add: powi2_add P_def)
  then have y: "y = of_int (m * 2 ^ d) * P"
    by (simp add: y_def mult.commute)
  with P have "y / P = of_int (m * 2 ^ d)" by simp
  then have "rne (y / P) = m * 2 ^ d" by (simp only: rne_of_int)
  then have "rmag y = of_int (m * 2 ^ d) * P" by (simp only: rmag_def P_def)
  with y have "rmag y = y" by (simp only:)
  then show ?thesis by (simp only: y_def)
qed

lemma rmag_repr:
  assumes m: "0 \<le> m" "m \<le> 2 ^ 24" and e: "- 149 \<le> e"
  shows "rmag (of_int m * 2 powi e) = of_int m * 2 powi e"
proof (cases "m = 2 ^ 24")
  case False
  with m have "m < 2 ^ 24" by simp
  with m(1) show ?thesis using e by (rule rmag_repr_lt)
next
  case True
  have "rmag (of_int (2 ^ 23) * 2 powi (e + 1)) = of_int (2 ^ 23) * 2 powi (e + 1)"
    using e by (intro rmag_repr_lt) simp_all
  moreover have "real_of_int (2 ^ 23) * 2 powi (e + 1) = of_int (2 ^ 24) * 2 powi e"
    by (simp add: powi2_add)
  ultimately show ?thesis using True by simp
qed

lemma rmag_form:
  assumes "0 \<le> t"
  shows "\<exists>m e. rmag t = of_int m * 2 powi e \<and> 0 \<le> m \<and> m \<le> 2 ^ 24 \<and> - 149 \<le> e"
proof -
  define m where "m = rne (t / 2 powi expo t)"
  from assms have "real_of_int 0 \<le> t / 2 powi expo t" by simp
  then have "0 \<le> m" unfolding m_def by (rule rne_ge)
  moreover have "t / 2 powi expo t \<le> of_int (2 ^ 24)"
    using below_next_binade [of t] by (simp add: pos_divide_le_eq powi2_add mult.commute)
  then have "m \<le> 2 ^ 24" unfolding m_def by (rule rne_le)
  moreover have "rmag t = of_int m * 2 powi expo t" by (simp add: rmag_def m_def)
  ultimately show ?thesis using expo_ge [of t] by blast
qed

lemma rmag_idem: "0 \<le> t \<Longrightarrow> rmag (rmag t) = rmag t"
  using rmag_form [of t] by (auto simp add: rmag_repr)

lemma rmag_finite:
  assumes "0 \<le> t" "t < overflow32"
  shows "rmag t < overflow32"
proof -
  define mx :: real where "mx = of_int (2 ^ 24 - 1) * 2 powi 104"
  have mx: "mx = 2 ^ 128 - 2 ^ 104" by (simp add: mx_def)
  have fx: "rmag mx = mx" unfolding mx_def by (rule rmag_repr_lt) simp_all
  have "rmag t \<le> mx"
  proof (cases "t \<le> mx")
    case True
    then have "rmag t \<le> rmag mx" by (rule rmag_mono)
    with fx show ?thesis by simp
  next
    case False
    then have big: "2 ^ 127 \<le> t" by (simp add: mx)
    then have b: "2 powi (- 126) \<le> t" by (simp add: power_int_minus field_simps)
    from assms(2) have "t < 2 powi (104 + 24)" by (simp add: overflow32_def)
    then have "expo t \<le> 104" by (intro expo_le) simp_all
    moreover from big expo_bounds(2) [OF b] have "(2::real) powi 127 < 2 powi (expo t + 24)"
      by simp
    then have "127 < expo t + 24" by (simp only: powi2_less_iff)
    ultimately have e: "expo t = 104" by simp
    from assms(2) have "t / 2 powi 104 < 2 ^ 24 - 1 / 2"
      by (simp add: overflow32_def pos_divide_less_eq)
    with rne_le_half [of "t / 2 powi 104"] have "real_of_int (rne (t / 2 powi 104)) < 2 ^ 24"
      by linarith
    then have "rne (t / 2 powi 104) < 2 ^ 24" by (metis of_int_less_numeral_power_cancel_iff)
    then have "rne (t / 2 powi 104) \<le> 2 ^ 24 - 1" by simp
    then have "real_of_int (rne (t / 2 powi 104)) \<le> real_of_int (2 ^ 24 - 1)" by (rule of_int_le_iff [THEN iffD2])
    then have "real_of_int (rne (t / 2 powi 104)) * 2 powi 104 \<le> real_of_int (2 ^ 24 - 1) * 2 powi 104"
      by (rule mult_right_mono) simp
    with e show ?thesis by (simp add: rmag_def mx_def)
  qed
  with mx show ?thesis by (simp add: overflow32_def)
qed

lemma overflow32_pos: "0 < overflow32"
  by (simp add: overflow32_def)

lemma round32_zero: "round32 0 = Fin 0"
  using overflow32_pos by (simp add: round32_def rmag_zero)

lemma round32_not_NaN: "round32 x \<noteq> NaN"
  by (simp add: round32_def)

lemma fle_NInf: "v \<noteq> NaN \<Longrightarrow> fle NInf v"
  by (cases v) simp_all

lemma fle_PInf: "v \<noteq> NaN \<Longrightarrow> fle v PInf"
  by (cases v) simp_all

lemma round32_mono:
  assumes "s \<le> t"
  shows "fle (round32 s) (round32 t)"
proof -
  consider "overflow32 \<le> t" | "s \<le> - overflow32" | "- overflow32 < s" "t < overflow32"
    by linarith
  then show ?thesis
  proof cases
    case 1
    with overflow32_pos have "round32 t = PInf" by (simp add: round32_def)
    then show ?thesis by (simp add: fle_PInf round32_not_NaN)
  next
    case 2
    with overflow32_pos have "round32 s = NInf" by (simp add: round32_def)
    then show ?thesis by (simp add: fle_NInf round32_not_NaN)
  next
    case 3
    with assms have b: "\<not> overflow32 \<le> \<bar>s\<bar>" "\<not> overflow32 \<le> \<bar>t\<bar>" by simp_all
    show ?thesis
    proof (cases "s < 0")
      case s: True
      show ?thesis
      proof (cases "t < 0")
        case True
        from assms have "rmag (- t) \<le> rmag (- s)" by (intro rmag_mono) simp
        with s True b show ?thesis by (simp add: round32_def)
      next
        case False
        with s have "0 \<le> rmag (- s)" "0 \<le> rmag t" by (simp_all add: rmag_nonneg)
        with s False b show ?thesis by (simp add: round32_def)
      qed
    next
      case False
      with assms have "\<not> t < 0" by simp
      moreover from assms have "rmag s \<le> rmag t" by (rule rmag_mono)
      ultimately show ?thesis using False b by (simp add: round32_def)
    qed
  qed
qed

lemma round32_idem:
  assumes "round32 x = Fin v"
  shows "round32 v = Fin v"
proof -
  from assms have b: "\<bar>x\<bar> < overflow32"
    by (auto simp add: round32_def split: if_splits)
  show ?thesis
  proof (cases "x < 0")
    case False
    with assms b have v: "v = rmag x" by (simp add: round32_def)
    from False b have "rmag x < overflow32" by (intro rmag_finite) simp_all
    moreover from False have "0 \<le> rmag x" by (intro rmag_nonneg) simp
    moreover from False have "rmag (rmag x) = rmag x" by (intro rmag_idem) simp
    ultimately show ?thesis by (simp add: v round32_def)
  next
    case True
    with assms b have v: "v = - rmag (- x)" by (simp add: round32_def)
    from True b have f: "rmag (- x) < overflow32" by (intro rmag_finite) simp_all
    from True have n: "0 \<le> rmag (- x)" by (intro rmag_nonneg) simp
    from True have i: "rmag (rmag (- x)) = rmag (- x)" by (intro rmag_idem) simp
    show ?thesis
    proof (cases "rmag (- x) = 0")
      case True
      with v show ?thesis by (simp add: round32_zero)
    next
      case False
      with n have "0 < rmag (- x)" by simp
      with f i show ?thesis by (simp add: v round32_def)
    qed
  qed
qed

lemma round32_repr:
  assumes "0 \<le> m" "m < 2 ^ 24" "- 149 \<le> e" "e \<le> 104"
  shows "round32 (of_int m * 2 powi e) = Fin (of_int m * 2 powi e)"
proof -
  from assms(2) have "m \<le> 2 ^ 24 - 1" by simp
  then have "real_of_int m \<le> real_of_int (2 ^ 24 - 1)" by (simp only: of_int_le_iff)
  then have "real_of_int m \<le> 2 ^ 24 - 1" by simp
  then have "real_of_int m * 2 powi e \<le> (2 ^ 24 - 1) * 2 powi e"
    by (rule mult_right_mono) simp
  also have "(2 ^ 24 - 1) * (2::real) powi e \<le> (2 ^ 24 - 1) * 2 powi 104"
  proof (rule mult_left_mono)
    from assms(4) show "(2::real) powi e \<le> 2 powi 104"
      by (rule power_int_increasing) simp
  qed simp
  also have "\<dots> < overflow32" by (simp add: overflow32_def)
  finally have "real_of_int m * 2 powi e < overflow32" .
  moreover from assms(1) have "0 \<le> real_of_int m * 2 powi e" by simp
  moreover from assms have "rmag (of_int m * 2 powi e) = of_int m * 2 powi e"
    by (intro rmag_repr_lt)
  ultimately show ?thesis by (simp add: round32_def)
qed

lemma round32_one: "round32 1 = Fin 1"
  using round32_repr [of 1 0] by simp

lemma round32_neg: "round32 (- x) = fneg (round32 x)"
  using overflow32_pos by (auto simp add: round32_def rmag_zero)

lemma round32_minus_one: "round32 (- 1) = Fin (- 1)"
  by (simp add: round32_neg round32_one)

lemma expo_eq:
  assumes "2 powi (e + 23) \<le> t" "t < 2 powi (e + 24)" "- 126 \<le> e + 23"
  shows "expo t = e"
proof -
  from assms(3) have "(2::real) powi (- 126) \<le> 2 powi (e + 23)"
    by (simp only: powi2_le_iff)
  with assms(1) have b: "2 powi (- 126) \<le> t" by linarith
  from assms(3) have "- 149 \<le> e" by simp
  then have "expo t \<le> e" using assms(2) by (rule expo_le)
  moreover from assms(1) expo_bounds(2) [OF b] have "(2::real) powi (e + 23) < 2 powi (expo t + 24)"
    by (rule le_less_trans)
  then have "e + 23 < expo t + 24" by (simp only: powi2_less_iff)
  ultimately show ?thesis by simp
qed

text \<open>The rounding at three values: inexact, below the subnormal range, beyond the range.\<close>

lemma round32_tenth: "round32 (1 / 10) = Fin (13421773 / 2 ^ 27)"
proof -
  have "expo (1 / 10) = - 27"
    by (rule expo_eq) (simp_all add: power_int_minus)
  moreover have "rne (134217728 / 10) = 13421773"
  proof -
    have "\<lfloor>134217728 / 10 :: real\<rfloor> = 13421772" by (simp add: floor_eq_iff)
    then show ?thesis by (simp add: rne_def Let_def)
  qed
  ultimately show ?thesis
    by (simp add: round32_def overflow32_def rmag_def power_int_minus)
qed

lemma round32_tiny: "round32 (1 / 10 ^ 46) = Fin 0"
proof -
  have "(1 / 10 ^ 46 :: real) < 2 powi (- 126)" by (simp add: power_int_minus field_simps)
  then have e: "expo (1 / 10 ^ 46) = - 149" by (simp only: expo_def if_True)
  have "\<lfloor>(1 / 10 ^ 46) / 2 powi (- 149) :: real\<rfloor> = 0"
    by (simp add: floor_eq_iff power_int_minus field_simps)
  moreover have "(1 / 10 ^ 46) / 2 powi (- 149) < (1 / 2 :: real)"
    by (simp add: power_int_minus field_simps)
  ultimately have "rne ((1 / 10 ^ 46) / 2 powi (- 149)) = 0"
    by (simp only: rne_def Let_def) simp
  with e show ?thesis by (simp add: round32_def overflow32_def rmag_def)
qed

lemma round32_huge: "round32 (10 ^ 39) = PInf"
  by (simp add: round32_def overflow32_def)

section \<open>Blocks of a list\<close>

lemma chunks_0: "chunks n 0 xs = []"
  by (simp add: chunks_def)

lemma chunks_Suc: "chunks n (Suc k) xs = take n xs # chunks n k (drop n xs)"
proof -
  have "[0..<Suc k] = 0 # map Suc [0..<k]"
    by (simp add: upt_conv_Cons map_Suc_upt del: upt_Suc)
  then show ?thesis
    by (simp add: chunks_def comp_def add.commute del: upt_Suc)
qed

lemma concat_chunks: "length xs = k * n \<Longrightarrow> concat (chunks n k xs) = xs"
  by (induction k arbitrary: xs) (simp_all add: chunks_0 chunks_Suc)

lemma chunks_map: "chunks n k (map f xs) = map (map f) (chunks n k xs)"
  by (simp add: chunks_def take_map drop_map)

lemma length_chunks: "length (chunks n k xs) = k"
  by (simp add: chunks_def)

lemma length_in_chunks: "length xs = k * n \<Longrightarrow> c \<in> set (chunks n k xs) \<Longrightarrow> length c = n"
proof (induction k arbitrary: xs)
  case 0 then show ?case by (simp add: chunks_0)
next
  case (Suc k)
  from Suc.prems(2) have "c = take n xs \<or> c \<in> set (chunks n k (drop n xs))"
    by (simp add: chunks_Suc)
  then show ?case
  proof
    assume "c = take n xs"
    with Suc.prems(1) show ?thesis by simp
  next
    assume c: "c \<in> set (chunks n k (drop n xs))"
    from Suc.prems(1) have "length (drop n xs) = k * n" by simp
    then show ?thesis using c by (rule Suc.IH)
  qed
qed

lemma expand_map: "expand s t (map f xs) = map f (expand s t xs)"
proof (induction s t xs rule: expand.induct)
  case (1 xs) show ?case by simp
next
  case (2 d ds e es xs)
  show ?case
  proof (cases "d = e")
    case True
    with 2 have "map (expand ds es \<circ> map f) (chunks (prod_list ds) d xs)
        = map (map f \<circ> expand ds es) (chunks (prod_list ds) d xs)"
      by (intro map_cong) simp_all
    then have "concat (map (expand ds es) (map (map f) (chunks (prod_list ds) d xs)))
        = concat (map (map f) (map (expand ds es) (chunks (prod_list ds) d xs)))"
      by (simp only: map_map)
    with True show ?thesis by (simp only: expand.simps chunks_map map_concat refl if_True)
  next
    case False
    with 2 show ?thesis by (simp add: map_concat)
  qed
qed simp_all

lemma expand_id: "length xs = prod_list s \<Longrightarrow> expand s s xs = xs"
proof (induction s arbitrary: xs)
  case Nil show ?case by simp
next
  case (Cons d ds)
  have "map (expand ds ds) (chunks (prod_list ds) d xs) = chunks (prod_list ds) d xs"
  proof (rule map_idI)
    fix c assume "c \<in> set (chunks (prod_list ds) d xs)"
    with Cons.prems have "length c = prod_list ds" by (auto intro: length_in_chunks)
    then show "expand ds ds c = c" by (rule Cons.IH)
  qed
  with Cons.prems show ?case by (simp add: concat_chunks)
qed

lemma concat_replicate_mult: "concat (replicate e (concat (replicate m b))) = concat (replicate (e * m) b)"
  by (induction e) (simp_all add: replicate_add)

lemma length_concat_replicate: "length (concat (replicate m b)) = m * length b"
  by (induction m) simp_all

lemma nth_concat_replicate: "k < m * length b \<Longrightarrow> concat (replicate m b) ! k = b ! (k mod length b)"
proof (induction m arbitrary: k)
  case 0 then show ?case by simp
next
  case (Suc m)
  show ?case
  proof (cases "k < length b")
    case True then show ?thesis by (simp add: nth_append)
  next
    case False
    with Suc.prems have "k - length b < m * length b" by simp
    then have "concat (replicate m b) ! (k - length b) = b ! ((k - length b) mod length b)"
      by (rule Suc.IH)
    with False show ?thesis by (simp add: nth_append le_mod_geq)
  qed
qed

section \<open>Broadcasting against a vector\<close>

lemma bshape_rev_Nil2: "bshape_rev xs [] = Some xs"
  by (cases xs) simp_all

lemma bshape_rev_same: "bshape_rev xs xs = Some xs"
  by (induction xs) simp_all

lemma broadcast_shapes_same: "broadcast_shapes s s = Some s"
  by (simp add: broadcast_shapes_def bshape_rev_same)

lemma broadcast_shapes_vec:
  "broadcast_shapes sx [n] =
     (if sx = [] then Some [n]
      else if last sx = n \<or> n = 1 then Some sx
      else if last sx = 1 then Some (butlast sx @ [n])
      else None)"
  by (cases sx rule: rev_cases) (simp_all add: broadcast_shapes_def bshape_rev_Nil2)

lemma broadcast_shapes_vec_left:
  "n' = n \<or> n = 1 \<Longrightarrow> broadcast_shapes [n] (ss @ [n']) = Some (ss @ [n'])"
  by (cases "rev ss") (auto simp add: broadcast_shapes_def)

lemma broadcast_shapes_last:
  "broadcast_shapes (ss @ [d]) (ss @ [n']) =
     (if d = n' \<or> n' = 1 then Some (ss @ [d]) else if d = 1 then Some (ss @ [n']) else None)"
  by (simp add: broadcast_shapes_def bshape_rev_same)

text \<open>The shape that results from broadcasting against a vector.\<close>

lemma broadcast_shapes_vec_form:
  assumes "broadcast_shapes sx [n] = Some s"
  shows "\<exists>ss n'. s = ss @ [n'] \<and> (n' = n \<or> n = 1) \<and>
           (sx = [] \<and> ss = [] \<or> sx = ss @ [n'] \<or> sx = ss @ [1])"
proof (cases sx rule: rev_cases)
  case Nil
  with assms show ?thesis by (auto simp add: broadcast_shapes_vec)
next
  case (snoc ss d)
  with assms show ?thesis
    by (auto simp add: broadcast_shapes_vec split: if_splits)
qed

lemma prod_list_pad: "prod_list (replicate k (Suc 0) @ s) = prod_list s"
  by (induction k) simp_all

lemma chunks_one: "chunks n (Suc 0) xs = [take n xs]"
  by (simp add: chunks_def)

lemma expand_Nil_fun: "expand [] [] = (\<lambda>xs. xs)"
  by (rule ext) simp

lemma expand_row: "length a = n \<Longrightarrow>
   expand [n] [n'] a = (if n' = n then a else concat (replicate n' a))"
  by (simp add: expand_Nil_fun concat_chunks)

lemma expand_Cons_one:
  "expand (Suc 0 # ds) (e # es) xs =
     (if e = Suc 0 then concat (map (expand ds es) (chunks (prod_list ds) (Suc 0) xs))
      else concat (replicate e (expand ds es xs)))"
  by auto

lemma expand_vec:
  "length a = n \<Longrightarrow>
   expand (replicate (length ss) 1 @ [n]) (ss @ [n']) a =
     concat (replicate (prod_list ss) (expand [n] [n'] a))"
proof (induction ss)
  case Nil
  show ?case by simp
next
  case (Cons e ss)
  show ?case
  proof (cases "e = 1")
    case True
    with Cons show ?thesis
      by (simp add: chunks_one prod_list_pad expand_Cons_one del: expand.simps(2))
  next
    case False
    with Cons show ?thesis
      by (simp add: concat_replicate_mult expand_Cons_one del: expand.simps(2))
  qed
qed

lemma length_concat_map_const:
  "(\<And>c. c \<in> set cs \<Longrightarrow> length (f c) = m) \<Longrightarrow> length (concat (map f cs)) = length cs * m"
  by (induction cs) simp_all

lemma length_expand:
  "list_all2 (\<lambda>d e. d = e \<or> d = 1) s t \<Longrightarrow> length xs = prod_list s \<Longrightarrow>
   length (expand s t xs) = prod_list t"
proof (induction s t arbitrary: xs rule: list_all2_induct)
  case Nil
  then show ?case by simp
next
  case (Cons d ds e es)
  show ?case
  proof (cases "d = e")
    case True
    have "length (concat (map (expand ds es) (chunks (prod_list ds) d xs)))
        = length (chunks (prod_list ds) d xs) * prod_list es"
    proof (rule length_concat_map_const)
      fix c assume "c \<in> set (chunks (prod_list ds) d xs)"
      with Cons.prems have "length c = prod_list ds"
        by (auto intro: length_in_chunks)
      then show "length (expand ds es c) = prod_list es" by (rule Cons.IH)
    qed
    with True show ?thesis by (simp add: length_chunks)
  next
    case False
    with Cons.hyps have "d = 1" by simp
    with Cons.prems have "length xs = prod_list ds" by simp
    then have "length (expand ds es xs) = prod_list es" by (rule Cons.IH)
    with False show ?thesis by (simp add: length_concat_replicate)
  qed
qed

lemma length_expand_to_vec:
  assumes b: "broadcast_shapes (shape x) [n] = Some s" and wf: "wf_tensor x"
  shows "length (expand_to s x) = prod_list s"
proof -
  from broadcast_shapes_vec_form [OF b] obtain ss n' where
    s: "s = ss @ [n']" and
    c: "shape x = [] \<and> ss = [] \<or> shape x = ss @ [n'] \<or> shape x = ss @ [1]"
    by blast
  have "list_all2 (\<lambda>d e. d = e \<or> d = 1) (ss @ [d]) (ss @ [n'])" if "d = n' \<or> d = 1" for d
    using that by (auto simp add: list_all2_append intro: list_all2_refl)
  with c s have "list_all2 (\<lambda>d e. d = e \<or> d = 1) (pad_shape (length s) (shape x)) s"
    by (elim disjE conjE) (simp_all add: pad_shape_def)
  moreover from c s wf have "length (data x) = prod_list (pad_shape (length s) (shape x))"
    by (auto simp add: pad_shape_def wf_tensor_def)
  ultimately show ?thesis unfolding expand_to_def by (rule length_expand)
qed

lemma expand_to_same: "wf_tensor t \<Longrightarrow> shape t = s \<Longrightarrow> expand_to s t = data t"
  by (auto simp add: expand_to_def pad_shape_def wf_tensor_def expand_id)

lemma expand_to_umap: "expand_to s (umap f t) = map f (expand_to s t)"
  by (simp add: expand_to_def umap_def expand_map)

lemma expand_to_vec:
  "shape a = [n] \<Longrightarrow> length (data a) = n \<Longrightarrow>
   expand_to (ss @ [n']) a = concat (replicate (prod_list ss) (expand [n] [n'] (data a)))"
  using expand_vec [of "data a" n ss n'] by (simp add: expand_to_def pad_shape_def)

lemma bop_Some:
  "broadcast_shapes (shape x) (shape y) = Some s \<Longrightarrow>
   bop f x y = Inr \<lparr>shape = s, data = map2 f (expand_to s x) (expand_to s y)\<rparr>"
  by (simp add: bop_def)

lemma map2_snake_elem:
  "map2 fadd X (map2 fmul (map (fdiv (Fin 1)) A)
        (map (\<lambda>v. fpow v 2) (map fsin (map2 fmul X A)))) = map2 snake_elem X A"
proof (induction X arbitrary: A)
  case Nil show ?case by simp
next
  case (Cons x X) then show ?case by (cases A) (simp_all add: snake_elem_def)
qed

section \<open>The forward pass on a vector parameter\<close>

lemma broadcast_shapes_Nil: "broadcast_shapes [] s = Some s"
  by (simp add: broadcast_shapes_def)

lemma length_expand_to_param:
  assumes "shape a = [n]" "length (data a) = n" "n' = n \<or> n = 1"
  shows "length (expand_to (ss @ [n']) a) = prod_list (ss @ [n'])"
  using assms
  by (auto simp add: expand_to_vec expand_row length_concat_replicate
        simp del: expand.simps(2))

lemma shape_umap: "shape (umap f t) = shape t"
  by (simp add: umap_def)

lemma data_umap: "data (umap f t) = map f (data t)"
  by (simp add: umap_def)

lemma forward_vec:
  assumes a: "shape (pdata (alpha self)) = [n]" "length (data (pdata (alpha self))) = n"
      and wf: "wf_tensor x"
      and b: "broadcast_shapes (shape x) [n] = Some s"
  shows "fst (forward self x) =
           Inr \<lparr>shape = s,
                data = map2 snake_elem (expand_to s x) (expand_to s (pdata (alpha self)))\<rparr>"
proof -
  define p where "p = pdata (alpha self)"
  define X where "X = expand_to s x"
  define A where "A = expand_to s p"
  from broadcast_shapes_vec_form [OF b] obtain ss n' where
    s: "s = ss @ [n']" and n': "n' = n \<or> n = 1" and
    c: "shape x = [] \<and> ss = [] \<or> shape x = ss @ [n'] \<or> shape x = ss @ [1]"
    by blast
  have lX: "length X = prod_list s"
    unfolding X_def using b wf by (rule length_expand_to_vec)
  have lA: "length A = prod_list s"
    unfolding A_def s using a n' by (intro length_expand_to_param) (simp_all add: p_def)
  define t1 where "t1 = \<lparr>shape = s, data = map2 fmul X A\<rparr>"
  define t3 where "t3 = umap (\<lambda>v. fpow v 2) (umap fsin t1)"
  define t5 where "t5 = \<lparr>shape = s, data = map2 fmul (map (fdiv (Fin 1)) A) (data t3)\<rparr>"
  have 1: "bop fmul x p = Inr t1"
    using a b by (simp add: bop_Some p_def t1_def X_def A_def)
  have wf3: "wf_tensor t3" and sh3: "shape t3 = s"
    using lX lA by (simp_all add: wf_tensor_def t3_def t1_def shape_umap data_umap)
  have "broadcast_shapes [n] s = Some s"
    unfolding s using n' by (rule broadcast_shapes_vec_left)
  then have 5: "bop fmul (umap (fdiv (Fin 1)) p) t3 = Inr t5"
    using a wf3 sh3
    by (simp add: bop_Some p_def shape_umap t5_def expand_to_same expand_to_umap A_def)
  have wf5: "wf_tensor t5" and sh5: "shape t5 = s"
    using lX lA by (simp_all add: wf_tensor_def t5_def t3_def t1_def data_umap)
  from c have "broadcast_shapes (shape x) s = Some s"
    unfolding s
    by (elim disjE conjE)
       (simp_all add: broadcast_shapes_Nil broadcast_shapes_same broadcast_shapes_last)
  then have "bop fadd x t5 = Inr \<lparr>shape = s, data = map2 fadd X (data t5)\<rparr>"
    using wf5 sh5 by (simp add: bop_Some expand_to_same X_def)
  also have "map2 fadd X (data t5) = map2 snake_elem X A"
    by (simp only: t5_def t3_def t1_def data_umap tensor.simps map2_snake_elem)
  finally show ?thesis
    using 1 5 by (simp add: forward_def p_def [symmetric] t3_def [symmetric] X_def A_def)
qed

lemma forward_vec_error:
  "shape (pdata (alpha self)) = [n] \<Longrightarrow> broadcast_shapes (shape x) [n] = None \<Longrightarrow>
   fst (forward self x) = Inl RuntimeError"
  by (simp add: forward_def bop_def)

lemma param_at:
  assumes a: "shape a = [n]" "length (data a) = n" and n': "n' = n \<or> n = 1"
      and k: "k < prod_list (ss @ [n'])"
  shows "expand_to (ss @ [n']) a ! k = data a ! (k mod n)"
proof -
  define B where "B = expand [n] [n'] (data a)"
  have lB: "length B = n'"
    using a n' by (auto simp add: B_def expand_row length_concat_replicate simp del: expand.simps(2))
  from k have k': "k < prod_list ss * length B" by (simp add: lB)
  then have "n' \<noteq> 0" using lB by (cases n') auto
  then have j: "k mod n' < n'" by simp
  have "expand_to (ss @ [n']) a = concat (replicate (prod_list ss) B)"
    unfolding B_def using a by (rule expand_to_vec)
  with k' have "expand_to (ss @ [n']) a ! k = B ! (k mod n')"
    by (simp add: nth_concat_replicate lB)
  also have "\<dots> = data a ! (k mod n)"
  proof (cases "n' = n")
    case True
    with a show ?thesis by (simp add: B_def expand_row del: expand.simps(2))
  next
    case False
    with n' have n: "n = 1" by simp
    with a j False have "B ! (k mod n') = data a ! ((k mod n') mod 1)"
      by (simp add: B_def expand_row nth_concat_replicate del: expand.simps(2))
    with n show ?thesis by simp
  qed
  finally show ?thesis .
qed

lemma forward_elem:
  assumes a: "shape (pdata (alpha self)) = [n]" "length (data (pdata (alpha self))) = n"
      and wf: "wf_tensor x"
      and b: "broadcast_shapes (shape x) [n] = Some s"
  shows "fst (forward self x) =
           Inr \<lparr>shape = s,
                data = map (\<lambda>k. snake_elem (expand_to s x ! k)
                                   (data (pdata (alpha self)) ! (k mod n)))
                         [0..<prod_list s]\<rparr>"
proof -
  from broadcast_shapes_vec_form [OF b] obtain ss n' where
    s: "s = ss @ [n']" and n': "n' = n \<or> n = 1"
    by blast
  have lX: "length (expand_to s x) = prod_list s"
    using b wf by (rule length_expand_to_vec)
  have lA: "length (expand_to s (pdata (alpha self))) = prod_list s"
    unfolding s using a n' by (rule length_expand_to_param)
  have "map2 snake_elem (expand_to s x) (expand_to s (pdata (alpha self)))
      = map (\<lambda>k. snake_elem (expand_to s x ! k) (data (pdata (alpha self)) ! (k mod n)))
          [0..<prod_list s]"
  proof (rule nth_equalityI)
    show "length (map2 snake_elem (expand_to s x) (expand_to s (pdata (alpha self))))
        = length (map (\<lambda>k. snake_elem (expand_to s x ! k)
                     (data (pdata (alpha self)) ! (k mod n))) [0..<prod_list s])"
      using lX lA by simp
  next
    fix k assume "k < length (map2 snake_elem (expand_to s x) (expand_to s (pdata (alpha self))))"
    with lX lA have k: "k < prod_list s" by simp
    with a n' have "expand_to s (pdata (alpha self)) ! k = data (pdata (alpha self)) ! (k mod n)"
      unfolding s by (intro param_at)
    with k lX lA show "map2 snake_elem (expand_to s x) (expand_to s (pdata (alpha self))) ! k
        = map (\<lambda>k. snake_elem (expand_to s x ! k) (data (pdata (alpha self)) ! (k mod n)))
            [0..<prod_list s] ! k"
      by simp
  qed
  with forward_vec [OF a wf b] show ?thesis by simp
qed

lemma snake_elem_zero: "snake_elem v (Fin 0) = NaN"
  by (cases v) (simp_all add: snake_elem_def inf_times_def round32_zero)

section \<open>Bounds on one element\<close>

lemma round32_finite: "\<bar>t\<bar> < overflow32 \<Longrightarrow> \<exists>v. round32 t = Fin v"
  by (simp add: round32_def)

lemma round32_between:
  assumes "lo \<le> t" "t \<le> hi" "round32 lo = Fin lo" "round32 hi = Fin hi"
  shows "\<exists>v. round32 t = Fin v \<and> lo \<le> v \<and> v \<le> hi"
proof -
  from assms(1) have "fle (round32 lo) (round32 t)" by (rule round32_mono)
  moreover from assms(2) have "fle (round32 t) (round32 hi)" by (rule round32_mono)
  ultimately show ?thesis using assms(3,4) by (cases "round32 t") simp_all
qed

lemma fmul_one_float32: "fmul (Fin 1) (to_float32 c) = to_float32 c"
proof (cases c)
  case (Fin r)
  show ?thesis
  proof (cases "round32 r")
    case (Fin v)
    then have "round32 v = Fin v" by (rule round32_idem)
    with Fin \<open>c = Fin r\<close> show ?thesis by simp
  qed (simp_all add: \<open>c = Fin r\<close> inf_times_def round32_not_NaN)
qed (simp_all add: inf_times_def)

lemma snake_elem_bounds:
  assumes a: "0 < a" and ra: "1 / a < overflow32" and xa: "\<bar>x * a\<bar> < overflow32"
      and rx: "round32 x = Fin x"
  shows "fle (Fin x) (snake_elem (Fin x) (Fin a)) \<and>
         fle (snake_elem (Fin x) (Fin a)) (fadd (Fin x) (fdiv (Fin 1) (Fin a)))"
proof -
  from xa obtain u where u: "round32 (x * a) = Fin u"
    using round32_finite by blast
  have "- 1 \<le> sin u" "sin u \<le> 1" by simp_all
  then obtain s where s: "round32 (sin u) = Fin s" "- 1 \<le> s" "s \<le> 1"
    using round32_between [of "- 1" "sin u" 1] by (auto simp add: round32_one round32_minus_one)
  from s(2,3) have "s\<^sup>2 \<le> 1" by (simp add: abs_square_le_1 abs_le_iff)
  moreover have "0 \<le> s\<^sup>2" by simp
  ultimately obtain q where q: "round32 (s\<^sup>2) = Fin q" "0 \<le> q" "q \<le> 1"
    using round32_between [of 0 "s\<^sup>2" 1] by (auto simp add: round32_one round32_zero)
  from a ra have "\<bar>1 / a\<bar> < overflow32" by simp
  then obtain r where r: "round32 (1 / a) = Fin r"
    using round32_finite by blast
  from a have "fle (round32 0) (round32 (1 / a))" by (intro round32_mono) simp
  with r have r0: "0 \<le> r" by (simp add: round32_zero)
  from r have ri: "round32 r = Fin r" by (rule round32_idem)
  from r0 q have "0 \<le> r * q" "r * q \<le> r"
    by (simp_all add: mult_left_le)
  then obtain p where p: "round32 (r * q) = Fin p" "0 \<le> p" "p \<le> r"
    using round32_between [of 0 "r * q" r] ri by (auto simp add: round32_zero)
  from a have an: "a \<noteq> 0" by simp
  have e: "snake_elem (Fin x) (Fin a) = round32 (x + p)"
    using an u s(1) q(1) r p(1) by (simp add: snake_elem_def)
  from p(2) have "fle (round32 x) (round32 (x + p))" by (intro round32_mono) simp
  moreover from p(3) have "fle (round32 (x + p)) (round32 (x + r))"
    by (intro round32_mono) simp
  ultimately show ?thesis using e rx r an by simp
qed

section \<open>The constructor\<close>

text \<open>
  C4, as stated, at \<open>in_features = 1\<close> and \<open>alpha = 1e39\<close>: the value is beyond the
  range of single precision, and the entry of the parameter is infinity, not
  \<open>alpha\<close>.
\<close>

theorem Snake_init_constant_counterexample:
  "Snake_init (\<lambda>i. 1) (PyInt 1) (Some (Fin (10 ^ 39))) True =
     Inr \<lparr>in_features = PyInt 1,
          alpha = \<lparr>pdata = \<lparr>shape = [1], data = [PInf]\<rparr>, requires_grad = True,
                   attrs = [''requiresGrad'' \<mapsto> True]\<rparr>\<rparr>"
  by (simp add: Snake_init_def torch_ones_def umap_def setattr_def Parameter_def
        round32_def overflow32_def inf_times_def)

text \<open>
  C4, amended.  For a positive integer \<open>in_features\<close> that fits a signed 64-bit
  integer and a value \<open>c\<close> given as \<open>alpha\<close>, the constructor returns an object whose
  parameter is the vector of length \<open>in_features\<close> with every entry equal to the
  single-precision conversion of \<open>c\<close>: the nearest single-precision value, an
  infinity beyond the range, and \<open>c\<close> itself when \<open>c\<close> is a single-precision value.
\<close>

theorem Snake_init_constant:
  "0 < n \<Longrightarrow> n < 2 ^ 63 \<Longrightarrow>
   \<exists>m. Snake_init draws (PyInt n) (Some c) alpha_trainable = Inr m \<and>
       in_features m = PyInt n \<and>
       shape (pdata (alpha m)) = [nat n] \<and>
       data (pdata (alpha m)) = replicate (nat n) (to_float32 c)"
  by (simp add: Snake_init_def torch_ones_def umap_def setattr_def Parameter_def
      fmul_one_float32)

theorem Snake_init_constant_witness:
  "(0::int) < 4 \<and> (4::int) < 2 ^ 63 \<and>
   (\<exists>m. Snake_init (\<lambda>i. 1) (PyInt 4) (Some (Fin 1)) True = Inr m \<and>
       in_features m = PyInt 4 \<and>
       shape (pdata (alpha m)) = [4] \<and>
       data (pdata (alpha m)) = [Fin 1, Fin 1, Fin 1, Fin 1])"
  using Snake_init_constant [of 4 "\<lambda>i. 1" "Fin 1" True]
  by (simp add: numeral_eq_Suc round32_one)

text \<open>
  C2.  The constructor stores \<open>alpha_trainable\<close> under the attribute name
  \<open>requiresGrad\<close>; the flag that the library reads is \<open>requires_grad\<close>.  After
  construction with \<open>alpha_trainable = False\<close> the flag \<open>requires_grad\<close> of the
  parameter is still true.
\<close>

theorem Snake_init_frozen_requires_grad:
  "\<exists>m. Snake_init (\<lambda>i. 1) (PyInt 4) (Some (Fin 1)) False = Inr m \<and>
       requires_grad (alpha m) = True \<and>
       attrs (alpha m) ''requiresGrad'' = Some False"
  by (simp add: Snake_init_def torch_ones_def umap_def setattr_def Parameter_def)

text \<open>
  C3.  Without \<open>alpha\<close>, the constructor passes the integer \<open>in_features\<close> to the
  sampler as a sample shape, and the call raises \<open>TypeError\<close>: no object is
  returned, whatever the integer.
\<close>

theorem Snake_init_random_int:
  "Snake_init draws (PyInt n) None alpha_trainable = Inl TypeError"
  by (simp add: Snake_init_def exponential_sample_def)

text \<open>
  C8, as stated, at \<open>in_features = -1\<close> with \<open>alpha = 1.0\<close>: the allocation of
  the vector of ones raises, and the constructor does not return an object.
\<close>

theorem Snake_init_negative_counterexample:
  "Snake_init (\<lambda>i. 1) (PyInt (- 1)) (Some (Fin 1)) True = Inl RuntimeError"
  by (simp add: Snake_init_def torch_ones_def)

text \<open>
  C8, amended.  For a non-positive integer \<open>in_features\<close> and a value given as
  \<open>alpha\<close>: with \<open>in_features = 0\<close> the constructor raises nothing and returns an
  object whose parameter is the empty vector; with a negative \<open>in_features\<close> it
  raises the error of the allocation.
\<close>

theorem Snake_init_nonpositive:
  "n \<le> 0 \<Longrightarrow>
   Snake_init draws (PyInt n) (Some c) alpha_trainable =
     (if n = 0
      then Inr \<lparr>in_features = PyInt 0,
                alpha = setattr (Parameter \<lparr>shape = [0], data = []\<rparr>)
                          ''requiresGrad'' alpha_trainable\<rparr>
      else Inl RuntimeError)"
  by (simp add: Snake_init_def torch_ones_def umap_def)

theorem Snake_init_nonpositive_witness:
  "(0::int) \<le> 0 \<and>
   Snake_init (\<lambda>i. 1) (PyInt 0) (Some (Fin 2)) True =
     Inr \<lparr>in_features = PyInt 0,
          alpha = \<lparr>pdata = \<lparr>shape = [0], data = []\<rparr>, requires_grad = True,
                   attrs = [''requiresGrad'' \<mapsto> True]\<rparr>\<rparr>"
  using Snake_init_nonpositive [of 0 "\<lambda>i. 1" "Fin 2" True]
  by (simp add: setattr_def Parameter_def)

section \<open>Properties of the forward pass\<close>




text \<open>
  C9, as stated, at the positive parameter \<open>[2]\<close> and the finite input \<open>[2^127]\<close>:
  the product overflows and the output is not-a-number, which lies between
  nothing.
\<close>

theorem forward_bounds_counterexample:
  "fst (forward \<lparr>in_features = PyInt 1,
                 alpha = Parameter \<lparr>shape = [1], data = [Fin 2]\<rparr>\<rparr>
          \<lparr>shape = [1], data = [Fin (2 ^ 127)]\<rparr>) =
     Inr \<lparr>shape = [1], data = [NaN]\<rparr>"
  by (simp add: forward_def Parameter_def bop_def broadcast_shapes_def umap_def
        expand_to_def pad_shape_def chunks_def round32_def overflow32_def)

text \<open>
  C9, amended.  Let the parameter be a vector of \<open>n\<close> positive finite entries \<open>as\<close>
  whose reciprocals do not overflow, and let \<open>x\<close> have shape \<open>ds @ [n]\<close> and finite
  single-precision elements \<open>xs\<close> such that no product of an element with its
  parameter entry overflows.  Then each element \<open>y\<close> of the output satisfies
  \<open>x \<le> y \<le> x + 1/a\<close> for the element \<open>x\<close> of the input at the same position and
  its parameter entry \<open>a\<close>, the reciprocal and the sum of the upper bound being
  rounded to single precision.
\<close>

theorem forward_bounds:
  assumes "shape (pdata (alpha self)) = [n]" "data (pdata (alpha self)) = map Fin as"
          "length as = n"
      and "shape x = ds @ [n]" "data x = map Fin xs" "length xs = prod_list ds * n"
      and pos: "\<forall>r \<in> set as. 0 < r \<and> 1 / r < overflow32"
      and rep: "\<forall>v \<in> set xs. round32 v = Fin v"
      and prd: "\<forall>k < length xs. \<bar>xs ! k * as ! (k mod n)\<bar> < overflow32"
  shows "\<exists>ys. fst (forward self x) = Inr \<lparr>shape = shape x, data = ys\<rparr> \<and>
            length ys = length xs \<and>
            (\<forall>k < length xs.
               fle (Fin (xs ! k)) (ys ! k) \<and>
               fle (ys ! k) (fadd (Fin (xs ! k)) (fdiv (Fin 1) (Fin (as ! (k mod n))))))"
proof -
  define ys where
    "ys = map (\<lambda>k. snake_elem (data x ! k) (data (pdata (alpha self)) ! (k mod n)))
            [0..<prod_list (shape x)]"
  have wf: "wf_tensor x" using assms(4-6) by (simp add: wf_tensor_def)
  have la: "length (data (pdata (alpha self))) = n" using assms(2,3) by simp
  have b: "broadcast_shapes (shape x) [n] = Some (shape x)"
    using assms(4) by (simp add: broadcast_shapes_vec)
  have "expand_to (shape x) x = data x"
    using wf refl by (rule expand_to_same)
  with forward_elem [OF assms(1) la wf b]
  have "fst (forward self x) = Inr \<lparr>shape = shape x, data = ys\<rparr>"
    by (simp add: ys_def)
  moreover have l: "length ys = length xs" using assms(4,6) by (simp add: ys_def)
  moreover have "fle (Fin (xs ! k)) (ys ! k) \<and>
       fle (ys ! k) (fadd (Fin (xs ! k)) (fdiv (Fin 1) (Fin (as ! (k mod n)))))"
    if k: "k < length xs" for k
  proof -
    from k assms(6) have "n \<noteq> 0" by (cases n) auto
    with assms(3) have j: "k mod n < length as" by simp
    then have "as ! (k mod n) \<in> set as" by simp
    with pos have r: "0 < as ! (k mod n)" "1 / as ! (k mod n) < overflow32" by blast+
    from k have "xs ! k \<in> set xs" by simp
    with rep have v: "round32 (xs ! k) = Fin (xs ! k)" by blast
    from prd k have p: "\<bar>xs ! k * as ! (k mod n)\<bar> < overflow32" by blast
    from k j assms(2,4,5,6) have "ys ! k = snake_elem (Fin (xs ! k)) (Fin (as ! (k mod n)))"
      by (simp add: ys_def)
    with snake_elem_bounds [OF r p v] show ?thesis by simp
  qed
  ultimately show ?thesis by blast
qed

theorem forward_bounds_witness:
  "\<exists>ys. fst (forward \<lparr>in_features = PyInt 2,
                 alpha = Parameter \<lparr>shape = [2], data = [Fin 1, Fin 1]\<rparr>\<rparr>
          \<lparr>shape = [1, 2], data = [Fin 0, Fin 1]\<rparr>) = Inr \<lparr>shape = [1, 2], data = ys\<rparr> \<and>
     length ys = 2 \<and> fle (Fin 0) (ys ! 0) \<and> fle (Fin 1) (ys ! 1) \<and>
     fle (ys ! 1) (fadd (Fin 1) (fdiv (Fin 1) (Fin 1)))"
  using forward_bounds [of "\<lparr>in_features = PyInt 2,
                 alpha = Parameter \<lparr>shape = [2], data = [Fin 1, Fin 1]\<rparr>\<rparr>" 2 "[1, 1]"
        "\<lparr>shape = [1, 2], data = [Fin 0, Fin 1]\<rparr>" "[1]" "[0, 1]"]
  by (auto simp add: Parameter_def numeral_2_eq_2 All_less_Suc overflow32_def
        round32_zero round32_one)

text \<open>
  C5.  Let the parameter be a vector of length \<open>n\<close> whose entry \<open>j\<close> is exactly
  zero, and let \<open>x\<close> be any well-formed tensor.  If the shape of \<open>x\<close> does not
  broadcast against the parameter, \<open>forward\<close> raises the error of the first
  product.  Otherwise it returns a tensor in which every element computed from
  entry \<open>j\<close> is not-a-number, and which contains a not-a-number as soon as it has
  an element: the division by zero is never turned into an ordinary value, and no
  exception stands for it.
\<close>

theorem forward_zero_alpha:
  assumes a: "shape (pdata (alpha self)) = [n]" "length (data (pdata (alpha self))) = n"
      and j: "j < n" "data (pdata (alpha self)) ! j = Fin 0"
      and wf: "wf_tensor x"
  shows "case broadcast_shapes (shape x) [n] of
           None \<Rightarrow> fst (forward self x) = Inl RuntimeError
         | Some s \<Rightarrow>
             (\<exists>d. fst (forward self x) = Inr \<lparr>shape = s, data = d\<rparr> \<and>
                  length d = prod_list s \<and>
                  (\<forall>k < length d. k mod n = j \<longrightarrow> d ! k = NaN) \<and>
                  (d \<noteq> [] \<longrightarrow> NaN \<in> set d))"
proof (cases "broadcast_shapes (shape x) [n]")
  case None
  with a(1) show ?thesis by (simp add: forward_vec_error)
next
  case (Some s)
  define d where
    "d = map (\<lambda>k. snake_elem (expand_to s x ! k) (data (pdata (alpha self)) ! (k mod n)))
           [0..<prod_list s]"
  have f: "fst (forward self x) = Inr \<lparr>shape = s, data = d\<rparr>"
    unfolding d_def using a wf Some by (rule forward_elem)
  have l: "length d = prod_list s" by (simp add: d_def)
  have col: "d ! k = NaN" if "k < length d" "k mod n = j" for k
    using that j(2) by (simp add: d_def snake_elem_zero)
  have "NaN \<in> set d" if "d \<noteq> []"
  proof -
    from broadcast_shapes_vec_form [OF Some] obtain ss n' where
      s: "s = ss @ [n']" and n': "n' = n \<or> n = 1"
      by blast
    from that have "0 < length d" by simp
    with l s have "0 < prod_list ss * n'" by simp
    then have p: "0 < prod_list ss" "0 < n'" by simp_all
    from n' j(1) p(2) have "j < n'" by auto
    also from p have "n' \<le> prod_list ss * n'" by simp
    finally have "j < length d" by (simp add: l s)
    moreover from j(1) have "j mod n = j" by simp
    ultimately have "d ! j = NaN" by (rule col)
    with \<open>j < length d\<close> show ?thesis by (metis nth_mem)
  qed
  with f l col Some show ?thesis by simp
qed

theorem forward_zero_alpha_witness:
  "\<exists>d. fst (forward \<lparr>in_features = PyInt 2,
                     alpha = Parameter \<lparr>shape = [2], data = [Fin 1, Fin 0]\<rparr>\<rparr>
              \<lparr>shape = [1, 2], data = [Fin 0, Fin 3]\<rparr>) = Inr \<lparr>shape = [1, 2], data = d\<rparr> \<and>
       d ! 1 = NaN"
proof -
  have "wf_tensor \<lparr>shape = [1, 2], data = [Fin 0, Fin 3]\<rparr>" by (simp add: wf_tensor_def)
  from forward_zero_alpha [of "\<lparr>in_features = PyInt 2,
                 alpha = Parameter \<lparr>shape = [2], data = [Fin 1, Fin 0]\<rparr>\<rparr>" 2 1, OF _ _ _ _ this]
  obtain d where
    f: "fst (forward \<lparr>in_features = PyInt 2,
                 alpha = Parameter \<lparr>shape = [2], data = [Fin 1, Fin 0]\<rparr>\<rparr>
          \<lparr>shape = [1, 2], data = [Fin 0, Fin 3]\<rparr>) = Inr \<lparr>shape = [1, 2], data = d\<rparr>"
    and l: "length d = 2" and c: "\<forall>k < length d. k mod 2 = 1 \<longrightarrow> d ! k = NaN"
    by (auto simp add: Parameter_def broadcast_shapes_vec)
  from c l have "d ! 1 = NaN" by simp
  with f show ?thesis by blast
qed


text \<open>
  C6, as stated, at a parameter of length 4 and an input of shape \<open>[1]\<close>: the
  trailing dimension 1 broadcasts against 4, and the output has shape \<open>[4]\<close>, not
  the shape of the input.
\<close>

theorem forward_shape_counterexample:
  "fst (forward \<lparr>in_features = PyInt 4,
                 alpha = Parameter \<lparr>shape = [4], data = [Fin 1, Fin 1, Fin 1, Fin 1]\<rparr>\<rparr>
          \<lparr>shape = [1], data = [Fin 0]\<rparr>) =
     Inr \<lparr>shape = [4], data = [Fin 0, Fin 0, Fin 0, Fin 0]\<rparr> \<and>
   broadcast_shapes [1] [4] = Some [4]"
  by (simp add: forward_def Parameter_def bop_def broadcast_shapes_def umap_def
        expand_to_def pad_shape_def chunks_def numeral_eq_Suc round32_zero round32_one)

text \<open>
  C6, amended.  For a parameter of length \<open>n\<close> and a well-formed input \<open>x\<close> of
  rank at least one whose trailing dimension is \<open>n\<close> (or any input of rank at least
  one when \<open>n = 1\<close>), \<open>forward\<close> returns a tensor of exactly the shape of \<open>x\<close>.  In
  the other cases in which it returns, the output has the broadcast shape: \<open>[n]\<close>
  for an input of rank zero, and the shape of \<open>x\<close> with its trailing 1 replaced by
  \<open>n\<close> otherwise.
\<close>

theorem forward_shape:
  assumes a: "shape (pdata (alpha self)) = [n]" "length (data (pdata (alpha self))) = n"
      and wf: "wf_tensor x"
  shows "(shape x \<noteq> [] \<and> (last (shape x) = n \<or> n = 1) \<longrightarrow>
            (\<exists>out. fst (forward self x) = Inr out \<and> shape out = shape x)) \<and>
         (\<forall>out. fst (forward self x) = Inr out \<longrightarrow>
            shape out = (if shape x = [] then [n]
                         else if last (shape x) = n \<or> n = 1 then shape x
                         else butlast (shape x) @ [n]))"
proof (cases "broadcast_shapes (shape x) [n]")
  case None
  with a(1) have "fst (forward self x) = Inl RuntimeError" by (simp add: forward_vec_error)
  with None show ?thesis by (simp add: broadcast_shapes_vec split: if_splits)
next
  case (Some s)
  from forward_vec [OF a wf Some] Some show ?thesis
    by (auto simp add: broadcast_shapes_vec split: if_splits)
qed

theorem forward_shape_witness:
  "(\<exists>out. fst (forward \<lparr>in_features = PyInt 2,
                 alpha = Parameter \<lparr>shape = [2], data = [Fin 1, Fin 2]\<rparr>\<rparr>
          \<lparr>shape = [1, 2], data = [Fin 0, Fin 3]\<rparr>) = Inr out \<and> shape out = [1, 2])"
  using forward_shape [of "\<lparr>in_features = PyInt 2,
                 alpha = Parameter \<lparr>shape = [2], data = [Fin 1, Fin 2]\<rparr>\<rparr>" 2
        "\<lparr>shape = [1, 2], data = [Fin 0, Fin 3]\<rparr>"]
  by (simp add: Parameter_def wf_tensor_def)

text \<open>
  C7.  \<open>forward\<close> leaves the object as it was, so the parameter and
  \<open>in_features\<close> are unchanged; a second call on the object after the first, with
  the same input, returns the same result; and the result depends on the object
  only through the value of the parameter.
\<close>

theorem forward_pure:
  "snd (forward self x) = self \<and>
   fst (forward (snd (forward self x)) x) = fst (forward self x) \<and>
   (pdata (alpha self') = pdata (alpha self) \<longrightarrow> fst (forward self' x) = fst (forward self x))"
  by (simp add: forward_def Let_def)

theorem forward_pure_witness:
  "snd (forward \<lparr>in_features = PyInt 1, alpha = Parameter \<lparr>shape = [1], data = [Fin 2]\<rparr>\<rparr>
          \<lparr>shape = [1], data = [Fin 0]\<rparr>) =
     \<lparr>in_features = PyInt 1, alpha = Parameter \<lparr>shape = [1], data = [Fin 2]\<rparr>\<rparr> \<and>
   fst (forward \<lparr>in_features = PyInt 7,
                 alpha = (Parameter \<lparr>shape = [1], data = [Fin 2]\<rparr>)\<lparr>requires_grad := False\<rparr>\<rparr>
          \<lparr>shape = [1], data = [Fin 0]\<rparr>) =
   fst (forward \<lparr>in_features = PyInt 1, alpha = Parameter \<lparr>shape = [1], data = [Fin 2]\<rparr>\<rparr>
          \<lparr>shape = [1], data = [Fin 0]\<rparr>)"
  using forward_pure [of "\<lparr>in_features = PyInt 1, alpha = Parameter \<lparr>shape = [1], data = [Fin 2]\<rparr>\<rparr>"
        "\<lparr>shape = [1], data = [Fin 0]\<rparr>"
        "\<lparr>in_features = PyInt 7,
                 alpha = (Parameter \<lparr>shape = [1], data = [Fin 2]\<rparr>)\<lparr>requires_grad := False\<rparr>\<rparr>"]
  by (simp add: Parameter_def)

end
